theory Spec2Isabelle
  imports Complex_Main "HOL-Library.Monad_Syntax"
begin

section \<open>The admission actor (wasp-edge, class RateLimiter)\<close>

text \<open>
  JavaScript numbers are modelled exactly: counters and millisecond clocks as \<open>int\<close>,
  scores and metrics as \<open>real\<close>. The rounding of IEEE doubles is not modelled.
  Strings are \<open>string\<close>; the comparisons the code makes (\<open>===\<close>, \<open>startsWith\<close>,
  truthiness of a string) are comparisons of character sequences.
\<close>

subsection \<open>Data\<close>

text \<open>The verdict type \<open>'allow'|'challenge'|'tarpit'|'block'\<close>.\<close>

datatype action = Allow | Challenge | Tarpit | Block

text \<open>The stored object \<open>b\<close>: \<open>{ hits, window, score, lastUA }\<close>.\<close>

record bucket =
  hits :: int
  window :: int
  score :: real
  lastUA :: string

text \<open>The JSON body of the request to the Durable Object.\<close>

record limit_request =
  req_ip :: string
  req_asn :: int
  req_ua :: string
  req_path :: string
  req_method :: string
  trustedCookie :: bool

text \<open>The JSON body of the response: \<open>{ action, score: b.score, hits: b.hits }\<close>.\<close>

record verdict =
  v_action :: action
  v_score :: real
  v_hits :: int

type_synonym storage = "string \<rightharpoonup> bucket"

subsection \<open>RateLimiter.fetch\<close>

definition startsWith :: "string \<Rightarrow> string \<Rightarrow> bool" where
  "startsWith s p = (take (length p) s = p)"

text \<open>\<open>const key = `ip:${ip}`\<close>\<close>

definition storage_key :: "limit_request \<Rightarrow> string" where
  "storage_key r = ''ip:'' @ req_ip r"

text \<open>\<open>await this.state.storage.get(key) ?? { hits: 0, window: now, score: 0, lastUA: '' }\<close>\<close>

definition load_bucket :: "int \<Rightarrow> bucket option \<Rightarrow> bucket" where
  "load_bucket now stored =
     (case stored of
        Some b \<Rightarrow> b
      | None \<Rightarrow> \<lparr>hits = 0, window = now, score = 0, lastUA = ''''\<rparr>)"

text \<open>\<open>if (now - b.window > 1000) { b.hits = 0; b.window = now; }  b.hits++;\<close>\<close>

definition roll_window :: "int \<Rightarrow> bucket \<Rightarrow> bucket" where
  "roll_window now b =
     (let b1 = (if now - window b > 1000 then b\<lparr>hits := 0, window := now\<rparr> else b)
      in b1\<lparr>hits := hits b1 + 1\<rparr>)"

text \<open>
  The heuristics, statement by statement: \<open>delta\<close> starts at 0 and each \<open>if\<close> adds to
  it. The bucket is the one after \<open>b.hits++\<close> and before \<open>b.lastUA = ua\<close>.
\<close>

definition heuristics :: "limit_request \<Rightarrow> bucket \<Rightarrow> int" where
  "heuristics r b =
     (let api = startsWith (req_path r) ''/api/'';
          write = (req_method r \<noteq> ''GET'' \<and> req_method r \<noteq> ''HEAD'');
          delta = 0;
          delta = (if api \<and> hits b > 15 then delta + 2 else delta);
          delta = (if \<not> api \<and> hits b > 35 then delta + 1 else delta);
          delta = (if req_ua r = '''' \<or> req_ua r = ''-'' then delta + 1 else delta);
          delta = (if write \<and> hits b > 5 then delta + 2 else delta);
          delta = (if lastUA b \<noteq> '''' \<and> lastUA b \<noteq> req_ua r then delta + 1 else delta)
      in delta)"

text \<open>\<open>b.lastUA = ua;  b.score = Math.max(0, b.score + delta - 1);\<close>\<close>

definition decay :: "limit_request \<Rightarrow> int \<Rightarrow> bucket \<Rightarrow> bucket" where
  "decay r delta b =
     (let b1 = b\<lparr>lastUA := req_ua r\<rparr>
      in b1\<lparr>score := max 0 (score b1 + real_of_int delta - 1)\<rparr>)"

text \<open>The threshold ladder; \<open>action\<close> starts as \<open>'allow'\<close>.\<close>

definition decide :: "bool \<Rightarrow> bucket \<Rightarrow> action" where
  "decide trusted b =
     (let action = Allow
      in if \<not> trusted then
           (if hits b > 120 \<or> score b > 12 then Block
            else if hits b > 70 \<or> score b > 8 then Tarpit
            else if hits b > 30 \<or> score b > 5 then Challenge
            else action)
         else action)"

text \<open>
  One call of \<open>RateLimiter.fetch\<close>: \<open>now\<close> is the reading of \<open>Date.now()\<close>, the storage
  is the Durable Object's, and the result is the response body with the storage after
  \<open>storage.put(key, b)\<close>. The expiry asked for with \<open>expirationTtl\<close> is the host's
  business: a key that has expired reads as absent, which is the case \<open>None\<close> here.
\<close>

definition RateLimiter_fetch :: "int \<Rightarrow> limit_request \<Rightarrow> storage \<Rightarrow> verdict \<times> storage" where
  "RateLimiter_fetch now r st =
     (let key = storage_key r;
          b = load_bucket now (st key);
          b = roll_window now b;
          delta = heuristics r b;
          b = decay r delta b;
          st' = st(key \<mapsto> b);
          action = decide (trustedCookie r) b
      in (\<lparr>v_action = action, v_score = score b, v_hits = hits b\<rparr>, st'))"

text \<open>
  A sequence of evaluations, each with its clock value, threaded through the storage;
  the verdicts are returned in order.
\<close>

fun evaluations :: "(int \<times> limit_request) list \<Rightarrow> storage \<Rightarrow> verdict list \<times> storage" where
  "evaluations [] st = ([], st)"
| "evaluations ((now, r) # rest) st =
     (let (v, st1) = RateLimiter_fetch now r st;
          (vs, st2) = evaluations rest st1
      in (v # vs, st2))"

section \<open>The case ingestor (case-ingestor, queue handler)\<close>

subsection \<open>Messages and tables\<close>

text \<open>The queue message body \<open>EventMsg\<close>.\<close>

record EventMsg =
  e_ts :: int
  e_ip :: string
  e_asn :: int
  e_country :: string
  e_ua :: string
  e_path :: string
  e_method :: string
  e_action :: string
  e_score :: real
  e_hits :: int
  e_zone :: string
  e_colo :: string

text \<open>A row of table \<open>cases\<close> (schema.sql); the two report columns may be NULL.\<close>

record case_row =
  c_id :: string
  c_key :: string
  c_zone :: string
  c_ip :: string
  c_asn :: int
  c_country :: string
  c_first_seen :: int
  c_last_seen :: int
  c_status :: string
  c_attack_rps :: real
  c_est_bandwidth_mbps :: real
  c_system_capacity_rps :: real
  c_AF :: real
  c_DF :: real
  c_BoF :: real
  c_evidence_count :: int
  c_mercy :: real
  c_justice :: real
  c_abuse_report :: "string option"
  c_section504_draft :: "string option"

text \<open>A row of table \<open>events\<close>.\<close>

record event_row =
  ev_id :: int
  ev_case_id :: string
  ev_ts :: int
  ev_path :: string
  ev_method :: string
  ev_ua :: string
  ev_action :: string
  ev_score :: real
  ev_hits :: int
  ev_colo :: string

text \<open>
  The D1 database: both tables in insertion order, and the AUTOINCREMENT counter of
  \<open>events.id\<close>.
\<close>

record database =
  cases :: "case_row list"
  events :: "event_row list"
  events_seq :: int

text \<open>A row of \<open>SELECT ts, action, score, hits FROM events\<close>.\<close>

record window_row =
  r_ts :: int
  r_action :: string
  r_score :: real
  r_hits :: int

text \<open>The object returned by \<open>recomputeMetrics\<close>.\<close>

record metrics =
  attack_rps :: real
  bandwidth_mbps :: real
  capacity_rps :: real
  af :: real
  df :: real
  bof :: real
  ef :: int
  mercy :: real
  justice :: real

text \<open>
  What a statement can throw: D1 itself failing, or a constraint of schema.sql
  (PRIMARY KEY, UNIQUE, FOREIGN KEY) rejecting an INSERT. \<open>NonFinite\<close> marks a division
  by zero, whose JavaScript result (Infinity or NaN) is no real number.
\<close>

datatype error = D1Error | ConstraintError | NonFinite

text \<open>
  What the handler takes from its host while it processes one message: the result of
  \<open>crypto.randomUUID()\<close>, the readings of the clock (\<open>Date.now()\<close> in
  \<open>recomputeMetrics\<close>, \<open>new Date()\<close> in \<open>buildSection504Draft\<close>, \<open>Date.now()\<close> in the
  \<open>bind\<close> of the snapshot UPDATE), and which of the message's D1 statements, if any,
  throws: 0 the SELECT and 1 the UPDATE or INSERT of \<open>upsertCase\<close>, 2 the INSERT
  of the event, 3 the SELECT of \<open>recomputeMetrics\<close>, 4 the snapshot UPDATE.
\<close>

record runtime =
  randomUUID :: string
  now_metrics :: int
  now_draft :: int
  now_update :: int
  d1_fault :: "nat option"

text \<open>
  The two document builders only format text from metrics that are already computed
  (\<open>toFixed\<close>, \<open>toISOString\<close> of the clock); they are parameters of the handler.
\<close>

record builders =
  buildAbuseReport :: "string \<Rightarrow> metrics \<Rightarrow> string"
  buildSection504Draft :: "int \<Rightarrow> metrics \<Rightarrow> string"

text \<open>A queue message, and what the handler changes: the database and the acknowledgements.\<close>

record message =
  msg_id :: string
  body :: EventMsg

record world =
  DB :: database
  acked :: "string list"

subsection \<open>upsertCase\<close>

text \<open>An integer inside a template literal: decimal digits, with a sign when negative.\<close>

fun string_of_nat :: "nat \<Rightarrow> string" where
  "string_of_nat n =
     (if n < 10 then [char_of (48 + n)]
      else string_of_nat (n div 10) @ [char_of (48 + n mod 10)])"

declare string_of_nat.simps [simp del]

definition string_of_int :: "int \<Rightarrow> string" where
  "string_of_int i = (if i < 0 then ''-'' @ string_of_nat (nat (- i)) else string_of_nat (nat i))"

text \<open>\<open>const key = `${e.zone}:${e.ip}:${e.asn}`\<close>\<close>

definition case_key :: "EventMsg \<Rightarrow> string" where
  "case_key e = e_zone e @ '':'' @ e_ip e @ '':'' @ string_of_int (e_asn e)"

text \<open>\<open>SELECT id FROM cases WHERE key = ?1\<close>, \<open>.first()\<close>\<close>

definition select_case_id :: "database \<Rightarrow> string \<Rightarrow> string option" where
  "select_case_id db key = map_option c_id (find (\<lambda>c. c_key c = key) (cases db))"

text \<open>\<open>UPDATE cases SET last_seen=?2 WHERE id=?1\<close>\<close>

definition update_last_seen :: "string \<Rightarrow> int \<Rightarrow> database \<Rightarrow> database" where
  "update_last_seen i t db =
     db\<lparr>cases := map (\<lambda>c. if c_id c = i then c\<lparr>c_last_seen := t\<rparr> else c) (cases db)\<rparr>"

text \<open>
  \<open>INSERT INTO cases (id, key, zone, ip, asn, country, first_seen, last_seen, status)
  VALUES (?1, ?2, ?3, ?4, ?5, ?6, ?7, ?7, 'OPEN')\<close>: the other columns take the defaults
  of schema.sql; \<open>id\<close> is the PRIMARY KEY and \<open>key\<close> is UNIQUE.
\<close>

definition new_case :: "string \<Rightarrow> string \<Rightarrow> EventMsg \<Rightarrow> case_row" where
  "new_case i key e =
     \<lparr>c_id = i, c_key = key, c_zone = e_zone e, c_ip = e_ip e, c_asn = e_asn e,
      c_country = e_country e, c_first_seen = e_ts e, c_last_seen = e_ts e,
      c_status = ''OPEN'', c_attack_rps = 0, c_est_bandwidth_mbps = 0,
      c_system_capacity_rps = 0, c_AF = 0, c_DF = 0, c_BoF = 1, c_evidence_count = 0,
      c_mercy = 0.5, c_justice = 0.5, c_abuse_report = None, c_section504_draft = None\<rparr>"

definition insert_case :: "case_row \<Rightarrow> database \<Rightarrow> error + database" where
  "insert_case row db =
     (if list_ex (\<lambda>c. c_id c = c_id row \<or> c_key c = c_key row) (cases db)
      then Inl ConstraintError
      else Inr (db\<lparr>cases := cases db @ [row]\<rparr>))"

text \<open>
  \<open>upsertCase\<close> returns the case id, or what it threw, with the database as it is then.
  \<open>found?.id\<close> holds when a row was found and its id is not the empty string.
\<close>

definition upsertCase :: "runtime \<Rightarrow> database \<Rightarrow> EventMsg \<Rightarrow> (error + string) \<times> database" where
  "upsertCase rt db e =
     (let key = case_key e in
      if d1_fault rt = Some 0 then (Inl D1Error, db)
      else
        let found = select_case_id db key in
        if (case found of Some i \<Rightarrow> i \<noteq> '''' | None \<Rightarrow> False) then
          (if d1_fault rt = Some 1 then (Inl D1Error, db)
           else (Inr (the found), update_last_seen (the found) (e_ts e) db))
        else
          let i = randomUUID rt in
          if d1_fault rt = Some 1 then (Inl D1Error, db)
          else (case insert_case (new_case i key e) db of
                  Inl err \<Rightarrow> (Inl err, db)
                | Inr db' \<Rightarrow> (Inr i, db')))"

subsection \<open>The event insert\<close>

text \<open>
  \<open>INSERT INTO events (case_id, ts, path, method, ua, action, score, hits, colo)\<close>:
  \<open>id\<close> is the next AUTOINCREMENT value and \<open>case_id\<close> REFERENCES \<open>cases(id)\<close>.
\<close>

definition insert_event :: "runtime \<Rightarrow> string \<Rightarrow> EventMsg \<Rightarrow> database \<Rightarrow> error + database" where
  "insert_event rt caseId e db =
     (if d1_fault rt = Some 2 then Inl D1Error
      else if \<not> list_ex (\<lambda>c. c_id c = caseId) (cases db) then Inl ConstraintError
      else
        let row = \<lparr>ev_id = events_seq db + 1, ev_case_id = caseId, ev_ts = e_ts e,
                   ev_path = e_path e, ev_method = e_method e, ev_ua = e_ua e,
                   ev_action = e_action e, ev_score = e_score e, ev_hits = e_hits e,
                   ev_colo = e_colo e\<rparr>
        in Inr (db\<lparr>events := events db @ [row], events_seq := events_seq db + 1\<rparr>))"

subsection \<open>recomputeMetrics\<close>

text \<open>
  \<open>SELECT ts, action, score, hits FROM events WHERE case_id=?1 AND ts>=?2 ORDER BY ts\<close>
\<close>

definition select_window :: "database \<Rightarrow> string \<Rightarrow> int \<Rightarrow> window_row list" where
  "select_window db caseId from =
     sort_key r_ts
       (map (\<lambda>r. \<lparr>r_ts = ev_ts r, r_action = ev_action r, r_score = ev_score r,
                    r_hits = ev_hits r\<rparr>)
          (filter (\<lambda>r. ev_case_id r = caseId \<and> ev_ts r \<ge> from) (events db)))"

text \<open>
  Division of JavaScript numbers, where it has a real value: none when the divisor is 0.
\<close>

definition jsdiv :: "real \<Rightarrow> real \<Rightarrow> real option" where
  "jsdiv x y = (if y = 0 then None else Some (x / y))"

text \<open>\<open>Math.round\<close>: the nearest integer, a tie going up.\<close>

definition Math_round :: "real \<Rightarrow> int" where
  "Math_round x = \<lfloor>x + 1 / 2\<rfloor>"

text \<open>
  The arithmetic of \<open>recomputeMetrics\<close> on the selected rows, line by line, with the
  constant \<open>capacityRPS\<close> as a parameter. The result is \<open>None\<close> when some division
  that is carried out has divisor 0.
\<close>

definition metrics_of_rows :: "real \<Rightarrow> window_row list \<Rightarrow> metrics option" where
  "metrics_of_rows capacityRPS results =
     (let n = length results in
      do {
        rps \<leftarrow> jsdiv (real n) 60;
        estBandwidthMbps \<leftarrow> jsdiv (rps * 2 * 8) 1024;
        AF \<leftarrow> (if capacityRPS > 0 then jsdiv rps capacityRPS else Some 0);
        let challenged = length (filter (\<lambda>r. r_action r = ''challenge'') results);
        let tarpitted = length (filter (\<lambda>r. r_action r = ''tarpit'') results);
        let blocked = length (filter (\<lambda>r. r_action r = ''block'') results);
        let allowed = length (filter (\<lambda>r. r_action r = ''allow'') results);
        DF \<leftarrow> jsdiv (real challenged * 0.6 + real tarpitted * 0.9 + real blocked * 1.0) 60;
        BoF \<leftarrow> (if AF > 0 then jsdiv DF AF else Some 1);
        avgScore \<leftarrow> (if n \<noteq> 0 then jsdiv (foldl (\<lambda>s r. s + r_score r) 0 results) (real n)
                      else Some 0);
        let EF = Math_round (real n + avgScore * 3);
        mercy \<leftarrow> jsdiv 1 (1 + exp (avgScore - 6));
        nonAllow \<leftarrow> (if n \<noteq> 0 then jsdiv (real (challenged + tarpitted + blocked)) (real n)
                      else Some 0);
        share \<leftarrow> jsdiv avgScore 12;
        let justice = max 0 (min 1 (nonAllow + share));
        Some \<lparr>attack_rps = rps, bandwidth_mbps = estBandwidthMbps,
              capacity_rps = capacityRPS, af = AF, df = DF, bof = BoF, ef = EF,
              mercy = mercy, justice = justice\<rparr>
      })"

text \<open>\<open>const windowMs = 60_000\<close>, \<open>const capacityRPS = 500\<close>.\<close>

definition windowMs :: int where
  "windowMs = 60000"

definition capacityRPS :: real where
  "capacityRPS = 500"

definition recomputeMetrics :: "runtime \<Rightarrow> database \<Rightarrow> string \<Rightarrow> error + metrics" where
  "recomputeMetrics rt db caseId =
     (let now = now_metrics rt;
          from = now - windowMs
      in if d1_fault rt = Some 3 then Inl D1Error
         else (case metrics_of_rows capacityRPS (select_window db caseId from) of
                 None \<Rightarrow> Inl NonFinite
               | Some m \<Rightarrow> Inr m))"

subsection \<open>The queue handler\<close>

text \<open>The materialization test of the handler.\<close>

definition thresholds_pass :: "metrics \<Rightarrow> bool" where
  "thresholds_pass m = (ef m \<ge> 50 \<or> af m \<ge> 1 \<or> bof m < 1)"

text \<open>
  \<open>UPDATE cases SET last_seen=?2, status=?3, attack_rps=?4, ..., section504_draft=?14
  WHERE id=?1\<close>, one statement.
\<close>

definition snapshot :: "int \<Rightarrow> metrics \<Rightarrow> string \<Rightarrow> string \<Rightarrow> case_row \<Rightarrow> case_row" where
  "snapshot now m abuse s504 c =
     c\<lparr>c_last_seen := now, c_status := ''OPEN'', c_attack_rps := attack_rps m,
       c_est_bandwidth_mbps := bandwidth_mbps m, c_system_capacity_rps := capacity_rps m,
       c_AF := af m, c_DF := df m, c_BoF := bof m, c_evidence_count := ef m,
       c_mercy := mercy m, c_justice := justice m, c_abuse_report := Some abuse,
       c_section504_draft := Some s504\<rparr>"

definition update_case :: "string \<Rightarrow> int \<Rightarrow> metrics \<Rightarrow> string \<Rightarrow> string \<Rightarrow> database \<Rightarrow> database" where
  "update_case caseId now m abuse s504 db =
     db\<lparr>cases := map (\<lambda>c. if c_id c = caseId then snapshot now m abuse s504 c else c) (cases db)\<rparr>"

text \<open>
  The body of the \<open>for\<close> loop for one message. A statement that throws ends the handler:
  the result is the error and the world as it is then. \<open>msg.ack()\<close> is the last
  statement of the body.
\<close>

definition process_message :: "builders \<Rightarrow> runtime \<Rightarrow> message \<Rightarrow> world \<Rightarrow> error option \<times> world" where
  "process_message bs rt msg w =
     (let e = body msg in
      case upsertCase rt (DB w) e of
        (Inl err, db1) \<Rightarrow> (Some err, w\<lparr>DB := db1\<rparr>)
      | (Inr caseId, db1) \<Rightarrow>
          (case insert_event rt caseId e db1 of
             Inl err \<Rightarrow> (Some err, w\<lparr>DB := db1\<rparr>)
           | Inr db2 \<Rightarrow>
               (case recomputeMetrics rt db2 caseId of
                  Inl err \<Rightarrow> (Some err, w\<lparr>DB := db2\<rparr>)
                | Inr m \<Rightarrow>
                    if thresholds_pass m then
                      (let abuse = buildAbuseReport bs (e_zone e) m;
                           s504 = buildSection504Draft bs (now_draft rt) m
                       in if d1_fault rt = Some 4 then (Some D1Error, w\<lparr>DB := db2\<rparr>)
                          else (None, \<lparr>DB = update_case caseId (now_update rt) m abuse s504 db2,
                                       acked = acked w @ [msg_id msg]\<rparr>))
                    else (None, \<lparr>DB = db2, acked = acked w @ [msg_id msg]\<rparr>))))"

text \<open>\<open>for (const msg of batch.messages) { ... }\<close>, each message with its runtime.\<close>

fun queue :: "builders \<Rightarrow> (runtime \<times> message) list \<Rightarrow> world \<Rightarrow> error option \<times> world" where
  "queue bs [] w = (None, w)"
| "queue bs ((rt, msg) # rest) w =
     (case process_message bs rt msg w of
        (Some err, w') \<Rightarrow> (Some err, w')
      | (None, w') \<Rightarrow> queue bs rest w')"

section \<open>Notions used in the statements\<close>

subsection \<open>Invariants\<close>

text \<open>No stored window starts after time \<open>t\<close>; no stored score is negative.\<close>

definition windows_le :: "int \<Rightarrow> storage \<Rightarrow> bool" where
  "windows_le t st = (\<forall>k b. st k = Some b \<longrightarrow> window b \<le> t)"

definition scores_nonneg :: "storage \<Rightarrow> bool" where
  "scores_nonneg st = (\<forall>k b. st k = Some b \<longrightarrow> 0 \<le> score b)"

text \<open>
  What schema.sql and \<open>upsertCase\<close> guarantee of table \<open>cases\<close>: \<open>id\<close> is the PRIMARY
  KEY, \<open>key\<close> is UNIQUE, and every id is a \<open>crypto.randomUUID()\<close>, never empty.
\<close>

definition cases_wf :: "database \<Rightarrow> bool" where
  "cases_wf db =
     (distinct (map c_id (cases db)) \<and> distinct (map c_key (cases db)) \<and>
      list_all (\<lambda>c. c_id c \<noteq> '''') (cases db))"

subsection \<open>The quantities of a window\<close>

text \<open>The number of rows with a given action, and the mean score (0 for no rows).\<close>

definition count_action :: "string \<Rightarrow> window_row list \<Rightarrow> nat" where
  "count_action a rows = length (filter (\<lambda>r. r_action r = a) rows)"

definition avg_score :: "window_row list \<Rightarrow> real" where
  "avg_score rows = (if rows = [] then 0 else sum_list (map r_score rows) / real (length rows))"

subsection \<open>Concrete inputs\<close>

definition demo_request :: "string \<Rightarrow> limit_request" where
  "demo_request m =
     \<lparr>req_ip = ''203.0.113.7'', req_asn = 64500, req_ua = ''curl/8.0'',
      req_path = ''/api/items'', req_method = m, trustedCookie = False\<rparr>"

definition demo_storage :: storage where
  "demo_storage =
     [''ip:203.0.113.7'' \<mapsto> \<lparr>hits = 125, window = 1000, score = 9, lastUA = ''Mozilla/5.0''\<rparr>]"

definition demo_builders :: builders where
  "demo_builders =
     \<lparr>buildAbuseReport = (\<lambda>zone m. ''ABUSE REPORT '' @ zone),
      buildSection504Draft = (\<lambda>now m. ''SECTION 504 INFORMATION'')\<rparr>"

definition demo_event :: "string \<Rightarrow> EventMsg" where
  "demo_event a =
     \<lparr>e_ts = 1700000000000, e_ip = ''203.0.113.7'', e_asn = 64500, e_country = ''CA'',
      e_ua = ''curl/8.0'', e_path = ''/api/items'', e_method = ''POST'', e_action = a,
      e_score = 0, e_hits = 1, e_zone = ''example.com'', e_colo = ''YYZ''\<rparr>"

definition demo_uuid :: string where
  "demo_uuid = ''0b5c7f9e-2d41-4c8a-9f3e-6a1d2e4b8c70''"

definition demo_runtime :: "nat option \<Rightarrow> runtime" where
  "demo_runtime f =
     \<lparr>randomUUID = demo_uuid, now_metrics = 1700000000040, now_draft = 1700000000045,
      now_update = 1700000000050, d1_fault = f\<rparr>"

definition demo_message :: "string \<Rightarrow> string \<Rightarrow> message" where
  "demo_message i a = \<lparr>msg_id = i, body = demo_event a\<rparr>"

definition empty_world :: world where
  "empty_world = \<lparr>DB = \<lparr>cases = [], events = [], events_seq = 0\<rparr>, acked = []\<rparr>"

text \<open>The database after \<open>upsertCase\<close> and after the event insert of the first message.\<close>

definition demo_db1 :: "string \<Rightarrow> database" where
  "demo_db1 a =
     \<lparr>cases = [new_case demo_uuid (case_key (demo_event a)) (demo_event a)],
      events = [], events_seq = 0\<rparr>"

definition demo_db2 :: "string \<Rightarrow> database" where
  "demo_db2 a =
     \<lparr>cases = [new_case demo_uuid (case_key (demo_event a)) (demo_event a)],
      events = [\<lparr>ev_id = 1, ev_case_id = demo_uuid, ev_ts = 1700000000000,
                 ev_path = ''/api/items'', ev_method = ''POST'', ev_ua = ''curl/8.0'',
                 ev_action = a, ev_score = 0, ev_hits = 1, ev_colo = ''YYZ''\<rparr>],
      events_seq = 1\<rparr>"

definition demo_row :: "string \<Rightarrow> window_row" where
  "demo_row a = \<lparr>r_ts = 1700000000000, r_action = a, r_score = 0, r_hits = 1\<rparr>"

text \<open>Fifty events of one case inside the window: thirty blocked, twenty allowed, score 10.\<close>

definition demo_event50 :: "nat \<Rightarrow> event_row" where
  "demo_event50 i =
     \<lparr>ev_id = int i, ev_case_id = demo_uuid, ev_ts = 1700000000000,
      ev_path = ''/api/items'', ev_method = ''POST'', ev_ua = ''curl/8.0'',
      ev_action = (if i \<le> 30 then ''block'' else ''allow''), ev_score = 10,
      ev_hits = int i, ev_colo = ''YYZ''\<rparr>"

definition demo_db50 :: database where
  "demo_db50 =
     \<lparr>cases = [new_case demo_uuid (case_key (demo_event ''block'')) (demo_event ''block'')],
      events = map demo_event50 [1..<51], events_seq = 50\<rparr>"

text \<open>The world after the handler has processed the first message, an allowed request.\<close>

definition demo_world1 :: world where
  "demo_world1 =
     \<lparr>DB = update_case demo_uuid 1700000000050
             (the (metrics_of_rows capacityRPS [demo_row ''allow'']))
             ''ABUSE REPORT example.com'' ''SECTION 504 INFORMATION'' (demo_db2 ''allow''),
      acked = [''m1'']\<rparr>"


section \<open>Properties of the admission actor\<close>

subsection \<open>One evaluation, field by field\<close>

lemma startsWith_iff: "startsWith s p \<longleftrightarrow> (\<exists>t. s = p @ t)"
  unfolding startsWith_def
  by (metis append_eq_conv_conj append_take_drop_id)

lemma fetch_unfold:
  "RateLimiter_fetch now r st =
     (let b0 = roll_window now (load_bucket now (st (storage_key r)));
          b = decay r (heuristics r b0) b0
      in (\<lparr>v_action = decide (trustedCookie r) b, v_score = score b, v_hits = hits b\<rparr>,
          st(storage_key r \<mapsto> b)))"
  by (simp add: RateLimiter_fetch_def Let_def)

lemma hits_decay: "hits (decay r d b) = hits b"
  by (simp add: decay_def Let_def)

lemma window_decay: "window (decay r d b) = window b"
  by (simp add: decay_def Let_def)

lemma lastUA_decay: "lastUA (decay r d b) = req_ua r"
  by (simp add: decay_def Let_def)

lemma score_decay: "score (decay r d b) = max 0 (score b + real_of_int d - 1)"
  by (simp add: decay_def Let_def)

lemma score_roll_window: "score (roll_window now b) = score b"
  by (simp add: roll_window_def Let_def)

lemma lastUA_roll_window: "lastUA (roll_window now b) = lastUA b"
  by (simp add: roll_window_def Let_def)

lemma hits_roll_window:
  "hits (roll_window now b) = (if now - window b > 1000 then 1 else hits b + 1)"
  by (simp add: roll_window_def Let_def)

lemma window_roll_window:
  "window (roll_window now b) = (if now - window b > 1000 then now else window b)"
  by (simp add: roll_window_def Let_def)

lemmas bucket_fields =
  hits_decay window_decay lastUA_decay score_decay score_roll_window lastUA_roll_window
  hits_roll_window window_roll_window

lemma heuristics_sum:
  "heuristics r b =
      (if startsWith (req_path r) ''/api/'' \<and> hits b > 15 then 2 else 0)
    + (if \<not> startsWith (req_path r) ''/api/'' \<and> hits b > 35 then 1 else 0)
    + (if req_ua r = '''' \<or> req_ua r = ''-'' then 1 else 0)
    + (if req_method r \<noteq> ''GET'' \<and> req_method r \<noteq> ''HEAD'' \<and> hits b > 5 then 2 else 0)
    + (if req_ua r \<noteq> lastUA b \<and> lastUA b \<noteq> '''' then 1 else 0)"
  by (simp add: heuristics_def Let_def)

lemma heuristics_bounds: "0 \<le> heuristics r b \<and> heuristics r b \<le> 6"
  by (simp add: heuristics_def Let_def)

lemma fetch_step_hits:
  assumes "RateLimiter_fetch now r st = (v, st')"
  shows "\<exists>b'. st' (storage_key r) = Some b' \<and> hits b' = v_hits v \<and> now - window b' \<le> 1000 \<and>
           (case st (storage_key r) of
              None \<Rightarrow> v_hits v = 1 \<and> window b' = now
            | Some b \<Rightarrow>
                if now - window b > 1000 then v_hits v = 1 \<and> window b' = now
                else v_hits v = hits b + 1 \<and> window b' = window b)"
  using assms
  by (auto simp: fetch_unfold Let_def bucket_fields load_bucket_def split: option.splits)

subsection \<open>Sequences of evaluations\<close>

lemma evaluations_Cons:
  "evaluations ((t, r) # rest) st =
     (fst (RateLimiter_fetch t r st) # fst (evaluations rest (snd (RateLimiter_fetch t r st))),
      snd (evaluations rest (snd (RateLimiter_fetch t r st))))"
  by (simp add: Let_def split: prod.splits)

lemma evaluations_append:
  "evaluations (xs @ ys) st =
     (fst (evaluations xs st) @ fst (evaluations ys (snd (evaluations xs st))),
      snd (evaluations ys (snd (evaluations xs st))))"
  by (induction xs arbitrary: st) (auto simp: Let_def split: prod.splits)

lemma windows_le_mono: "windows_le t st \<Longrightarrow> t \<le> t' \<Longrightarrow> windows_le t' st"
  unfolding windows_le_def by force

lemma windows_le_fetch:
  assumes "windows_le now st"
  shows "windows_le now (snd (RateLimiter_fetch now r st))"
proof -
  have "window (roll_window now (load_bucket now (st (storage_key r)))) \<le> now"
    using assms
    by (cases "st (storage_key r)") (auto simp: window_roll_window load_bucket_def windows_le_def)
  then show ?thesis
    using assms by (simp add: fetch_unfold Let_def windows_le_def window_decay)
qed

lemma windows_le_evaluations:
  "sorted (t0 # map fst evs) \<Longrightarrow> windows_le t0 st \<Longrightarrow>
     windows_le (last (t0 # map fst evs)) (snd (evaluations evs st))"
proof (induction evs arbitrary: t0 st)
  case Nil
  then show ?case by simp
next
  case (Cons e evs)
  obtain t r where e: "e = (t, r)" by (cases e)
  from Cons.prems have le: "t0 \<le> t" and srt: "sorted (t # map fst evs)"
    by (auto simp: e)
  have "windows_le t (snd (RateLimiter_fetch t r st))"
    using windows_le_fetch windows_le_mono [OF Cons.prems(2) le] by blast
  from Cons.IH [OF srt this] show ?case
    by (simp add: e evaluations_Cons del: evaluations.simps)
qed

lemma scores_nonneg_fetch:
  "scores_nonneg st \<Longrightarrow> scores_nonneg (snd (RateLimiter_fetch now r st))"
  by (simp add: fetch_unfold Let_def scores_nonneg_def score_decay)

lemma scores_nonneg_evaluations:
  "scores_nonneg st \<Longrightarrow> scores_nonneg (snd (evaluations evs st))"
proof (induction evs arbitrary: st)
  case Nil
  then show ?case by simp
next
  case (Cons e evs)
  obtain t r where e: "e = (t, r)" by (cases e)
  show ?case
    using Cons.IH [OF scores_nonneg_fetch [OF Cons.prems, of t r]]
    by (simp add: e evaluations_Cons del: evaluations.simps)
qed

lemma v_score_fetch_nonneg: "0 \<le> v_score (fst (RateLimiter_fetch now r st))"
  by (simp add: fetch_unfold Let_def score_decay)

lemma v_score_evaluations_nonneg:
  "v \<in> set (fst (evaluations evs st)) \<Longrightarrow> 0 \<le> v_score v"
proof (induction evs arbitrary: st)
  case Nil
  then show ?case by simp
next
  case (Cons e evs)
  obtain t r where e: "e = (t, r)" by (cases e)
  from Cons.prems
  have "v = fst (RateLimiter_fetch t r st) \<or>
        v \<in> set (fst (evaluations evs (snd (RateLimiter_fetch t r st))))"
    by (auto simp: e evaluations_Cons simp del: evaluations.simps)
  then show ?case
    using Cons.IH v_score_fetch_nonneg by blast
qed

lemma last_key_stored:
  "\<exists>b. snd (evaluations (evs @ [(t, r)]) st) (storage_key r) = Some b"
  by (simp add: evaluations_append fetch_unfold Let_def split: prod.splits)

lemma hits_after_gap:
  assumes f: "RateLimiter_fetch now r st = (v, st')"
    and st: "st = snd (evaluations (evs @ [(t1, r1)]) Map.empty)"
    and srt: "sorted (map fst evs @ [t1, now])"
    and ip: "req_ip r1 = req_ip r" and gap: "now - t1 > 1000"
  shows "v_hits v = 1"
proof -
  let ?es = "evs @ [(t1, r1)]"
  have srt': "sorted (map fst ?es)"
    using srt by (simp add: sorted_append)
  obtain e es' where es: "?es = e # es'" by (cases ?es) auto
  have s2: "sorted (fst e # map fst ?es)"
    using srt' by (simp add: es)
  have "windows_le (fst e) Map.empty" by (simp add: windows_le_def)
  from windows_le_evaluations [OF s2 this]
  have wl: "windows_le t1 st" using st by (simp add: es [symmetric])
  have key: "storage_key r = storage_key r1" using ip by (simp add: storage_key_def)
  obtain b where b: "st (storage_key r) = Some b"
    using last_key_stored [of evs t1 r1 Map.empty] st key by auto
  then have "window b \<le> t1" using wl by (auto simp: windows_le_def)
  then have "now - window b > 1000" using gap by linarith
  then show "v_hits v = 1"
    using fetch_step_hits [OF f] b by auto
qed


subsection \<open>Evaluations of concrete requests\<close>

lemmas actor_eval =
  fetch_unfold Let_def bucket_fields load_bucket_def storage_key_def heuristics_def
  startsWith_def decide_def demo_request_def demo_storage_def

lemma demo_fetch_post:
  "RateLimiter_fetch 1500 (demo_request ''POST'') demo_storage =
     (\<lparr>v_action = Block, v_score = 13, v_hits = 126\<rparr>,
      [''ip:203.0.113.7'' \<mapsto> \<lparr>hits = 126, window = 1000, score = 13, lastUA = ''curl/8.0''\<rparr>])"
  by (simp add: actor_eval decay_def roll_window_def)

lemma demo_fetch_trusted:
  "v_action (fst (RateLimiter_fetch 1500 ((demo_request ''POST'')\<lparr>trustedCookie := True\<rparr>)
     demo_storage)) = Allow"
  by (simp add: fetch_unfold Let_def decide_def)

lemma demo_fetch_first:
  "RateLimiter_fetch t (demo_request ''GET'') Map.empty =
     (\<lparr>v_action = Allow, v_score = 0, v_hits = 1\<rparr>,
      [''ip:203.0.113.7'' \<mapsto> \<lparr>hits = 1, window = t, score = 0, lastUA = ''curl/8.0''\<rparr>])"
  by (simp add: actor_eval decay_def roll_window_def)

lemma demo_fetch_next:
  "h < 15 \<Longrightarrow>
   RateLimiter_fetch t (demo_request ''GET'')
     [''ip:203.0.113.7'' \<mapsto> \<lparr>hits = h, window = w, score = 0, lastUA = ''curl/8.0''\<rparr>] =
     (\<lparr>v_action = Allow, v_score = 0, v_hits = (if t - w > 1000 then 1 else h + 1)\<rparr>,
      [''ip:203.0.113.7'' \<mapsto>
         \<lparr>hits = (if t - w > 1000 then 1 else h + 1), window = (if t - w > 1000 then t else w),
          score = 0, lastUA = ''curl/8.0''\<rparr>])"
  by (simp add: actor_eval decay_def roll_window_def)

lemma demo_evaluations:
  "evaluations [(0, demo_request ''GET''), (600, demo_request ''GET''), (900, demo_request ''GET'')]
     Map.empty =
     ([\<lparr>v_action = Allow, v_score = 0, v_hits = 1\<rparr>, \<lparr>v_action = Allow, v_score = 0, v_hits = 2\<rparr>,
       \<lparr>v_action = Allow, v_score = 0, v_hits = 3\<rparr>],
      [''ip:203.0.113.7'' \<mapsto> \<lparr>hits = 3, window = 0, score = 0, lastUA = ''curl/8.0''\<rparr>])"
  by (simp add: evaluations_Cons demo_fetch_first demo_fetch_next del: evaluations.simps(2))

lemma demo_fetch_gap:
  "RateLimiter_fetch 2000 (demo_request ''GET'')
     [''ip:203.0.113.7'' \<mapsto> \<lparr>hits = 3, window = 0, score = 0, lastUA = ''curl/8.0''\<rparr>] =
     (\<lparr>v_action = Allow, v_score = 0, v_hits = 1\<rparr>,
      [''ip:203.0.113.7'' \<mapsto> \<lparr>hits = 1, window = 2000, score = 0, lastUA = ''curl/8.0''\<rparr>])"
  by (simp add: demo_fetch_next)

section \<open>The claims about the admission actor\<close>

text \<open>
  C1. For every evaluation: when \<open>trusted\<close> is true the action is \<open>allow\<close>, whatever
  hits and score are; otherwise it is \<open>block\<close> if hits > 120 or score > 12, else
  \<open>tarpit\<close> if hits > 70 or score > 8, else \<open>challenge\<close> if hits > 30 or score > 5,
  else \<open>allow\<close>. Hits and score are those of the response, which are those of the
  state stored by this evaluation (after window reset, increment, delta and decay).
\<close>

theorem verdict_thresholds:
  assumes "RateLimiter_fetch now r st = (v, st')"
  shows "v_action v =
           (if trustedCookie r then Allow
            else if v_hits v > 120 \<or> v_score v > 12 then Block
            else if v_hits v > 70 \<or> v_score v > 8 then Tarpit
            else if v_hits v > 30 \<or> v_score v > 5 then Challenge
            else Allow)
         \<and> (\<exists>b. st' (storage_key r) = Some b \<and> v_hits v = hits b \<and> v_score v = score b)"
  using assms by (auto simp: fetch_unfold Let_def decide_def)

theorem verdict_thresholds_witness:
  "fst (RateLimiter_fetch 1500 (demo_request ''POST'') demo_storage)
     = \<lparr>v_action = Block, v_score = 13, v_hits = 126\<rparr>
   \<and> v_action (fst (RateLimiter_fetch 1500 ((demo_request ''POST'')\<lparr>trustedCookie := True\<rparr>)
        demo_storage)) = Allow"
  using verdict_thresholds [OF demo_fetch_post]
  by (simp add: demo_fetch_post demo_fetch_trusted)

text \<open>
  C2. The hits counter follows a tumbling window. In one evaluation, when the clock
  minus the stored \<open>window\<close> exceeds 1000 ms, hits restarts from 0 and \<open>window\<close> becomes
  the clock, before the increment, so the evaluation reports 1; otherwise hits is the
  stored hits plus exactly 1 and \<open>window\<close> is kept. A key with no stored state reports 1.
  In every sequence of evaluations with a clock that does not run backwards, started
  from an empty store, an evaluation more than 1000 ms after the previous one on the
  same key reports hits 1.
\<close>

theorem hits_tumbling_window:
  assumes "RateLimiter_fetch now r st = (v, st')"
  shows "(\<exists>b'. st' (storage_key r) = Some b' \<and> hits b' = v_hits v \<and> now - window b' \<le> 1000 \<and>
           (case st (storage_key r) of
              None \<Rightarrow> v_hits v = 1 \<and> window b' = now
            | Some b \<Rightarrow>
                if now - window b > 1000 then v_hits v = 1 \<and> window b' = now
                else v_hits v = hits b + 1 \<and> window b' = window b))
       \<and> (\<forall>evs t1 r1.
             st = snd (evaluations (evs @ [(t1, r1)]) Map.empty) \<and>
             sorted (map fst evs @ [t1, now]) \<and> req_ip r1 = req_ip r \<and> now - t1 > 1000
             \<longrightarrow> v_hits v = 1)"
  using fetch_step_hits [OF assms] hits_after_gap [OF assms] by blast

theorem hits_tumbling_window_witness:
  "map v_hits (fst (evaluations
      [(0, demo_request ''GET''), (600, demo_request ''GET''), (900, demo_request ''GET'')]
      Map.empty)) = [1, 2, 3]
   \<and> v_hits (fst (RateLimiter_fetch 2000 (demo_request ''GET'')
        (snd (evaluations
          [(0, demo_request ''GET''), (600, demo_request ''GET''), (900, demo_request ''GET'')]
          Map.empty)))) = 1"
proof -
  let ?G = "demo_request ''GET''"
  let ?st = "[''ip:203.0.113.7'' \<mapsto> \<lparr>hits = 3, window = 0, score = 0, lastUA = ''curl/8.0''\<rparr>]"
  let ?v = "\<lparr>v_action = Allow, v_score = 0, v_hits = 1\<rparr>"
  have st: "?st = snd (evaluations ([(0, ?G), (600, ?G)] @ [(900, ?G)]) Map.empty)"
    by (simp add: demo_evaluations del: evaluations.simps)
  have srt: "sorted (map fst [(0::int, ?G), (600, ?G)] @ [900, 2000])"
    by simp
  from hits_tumbling_window [OF demo_fetch_gap]
  have "\<forall>evs t1 r1.
          ?st = snd (evaluations (evs @ [(t1, r1)]) Map.empty) \<and>
          sorted (map fst evs @ [t1, 2000]) \<and> req_ip r1 = req_ip ?G \<and> 2000 - t1 > 1000
          \<longrightarrow> v_hits ?v = 1"
    by (rule conjunct2)
  then have "?st = snd (evaluations ([(0, ?G), (600, ?G)] @ [(900, ?G)]) Map.empty) \<and>
          sorted (map fst [(0::int, ?G), (600, ?G)] @ [900, 2000]) \<and> req_ip ?G = req_ip ?G
          \<and> (2000::int) - 900 > 1000
          \<longrightarrow> v_hits ?v = 1"
    by blast
  with st srt have "v_hits ?v = 1"
    by simp
  then show ?thesis
    by (simp add: demo_evaluations demo_fetch_gap del: evaluations.simps)
qed

text \<open>
  C3. After every evaluation the score is \<open>max(0, score + delta - 1)\<close>, where \<open>score\<close>
  is the stored score (0 for a new key) and \<open>delta\<close> the heuristic delta of this
  evaluation; so the score of every response is non-negative, and so is every score
  stored by any sequence of evaluations started from an empty store.
\<close>

theorem score_never_negative:
  assumes "RateLimiter_fetch now r st = (v, st')"
  shows "v_score v =
           max 0 ((case st (storage_key r) of None \<Rightarrow> 0 | Some b \<Rightarrow> score b)
                  + real_of_int (heuristics r (roll_window now (load_bucket now (st (storage_key r)))))
                  - 1)
         \<and> (\<exists>b'. st' (storage_key r) = Some b' \<and> score b' = v_score v)
         \<and> 0 \<le> v_score v
         \<and> (\<forall>evs. (\<forall>v'\<in>set (fst (evaluations evs st)). 0 \<le> v_score v')
                 \<and> (\<forall>k b. snd (evaluations evs Map.empty) k = Some b \<longrightarrow> 0 \<le> score b))"
proof -
  have a: "v_score v =
           max 0 ((case st (storage_key r) of None \<Rightarrow> 0 | Some b \<Rightarrow> score b)
                  + real_of_int (heuristics r (roll_window now (load_bucket now (st (storage_key r)))))
                  - 1)
         \<and> (\<exists>b'. st' (storage_key r) = Some b' \<and> score b' = v_score v)"
    using assms
    by (auto simp: fetch_unfold Let_def score_decay score_roll_window load_bucket_def
             split: option.splits)
  have b: "0 \<le> v_score v"
    using v_score_fetch_nonneg [of now r st] assms by simp
  have "scores_nonneg Map.empty" by (simp add: scores_nonneg_def)
  then have c: "\<forall>k b. snd (evaluations evs Map.empty) k = Some b \<longrightarrow> 0 \<le> score b" for evs
    using scores_nonneg_evaluations [of Map.empty evs] by (simp add: scores_nonneg_def)
  show ?thesis
    using a b c v_score_evaluations_nonneg by blast
qed

theorem score_never_negative_witness:
  "map v_score (fst (evaluations
      [(0, demo_request ''GET''), (600, demo_request ''GET''), (900, demo_request ''GET'')]
      Map.empty)) = [0, 0, 0]
   \<and> v_score (fst (RateLimiter_fetch 1500 (demo_request ''POST'') demo_storage)) = 13
   \<and> (0::real) \<le> 13"
proof -
  from score_never_negative [OF demo_fetch_post]
  have "0 \<le> v_score \<lparr>v_action = Block, v_score = 13, v_hits = 126\<rparr>"
    by blast
  then show ?thesis
    by (simp add: demo_evaluations demo_fetch_post del: evaluations.simps)
qed

text \<open>
  C4. The heuristic delta of an evaluation is the sum of five contributions: +2 if the
  path is under \<open>/api/\<close> and hits > 15; +1 if the path is not under \<open>/api/\<close> and
  hits > 35; +1 if the user agent is empty or \<open>-\<close>; +2 if the method is neither GET
  nor HEAD and hits > 5; +1 if the user agent differs from the stored one and the
  stored one is not empty. Hits is the counter after the increment, the one the
  response reports. Nothing else contributes, and the delta lies between 0 and 7.
\<close>

theorem heuristic_delta_sum:
  "(let h = v_hits (fst (RateLimiter_fetch now r st));
        last_user_agent = (case st (storage_key r) of None \<Rightarrow> '''' | Some b \<Rightarrow> lastUA b);
        delta = heuristics r (roll_window now (load_bucket now (st (storage_key r))))
    in delta =
         (if startsWith (req_path r) ''/api/'' \<and> h > 15 then 2 else 0)
       + (if \<not> startsWith (req_path r) ''/api/'' \<and> h > 35 then 1 else 0)
       + (if req_ua r = '''' \<or> req_ua r = ''-'' then 1 else 0)
       + (if req_method r \<noteq> ''GET'' \<and> req_method r \<noteq> ''HEAD'' \<and> h > 5 then 2 else 0)
       + (if req_ua r \<noteq> last_user_agent \<and> last_user_agent \<noteq> '''' then 1 else 0)
       \<and> 0 \<le> delta \<and> delta \<le> 7)"
proof -
  let ?b = "roll_window now (load_bucket now (st (storage_key r)))"
  have h: "v_hits (fst (RateLimiter_fetch now r st)) = hits ?b"
    by (simp add: fetch_unfold Let_def hits_decay)
  have u: "(case st (storage_key r) of None \<Rightarrow> '''' | Some b \<Rightarrow> lastUA b) = lastUA ?b"
    by (simp add: lastUA_roll_window load_bucket_def split: option.splits)
  have "heuristics r ?b \<le> 7"
    using heuristics_bounds [of r ?b] by linarith
  then show ?thesis
    unfolding Let_def h u
    using heuristics_sum [of r ?b] heuristics_bounds [of r ?b] by simp
qed

theorem heuristic_delta_sum_witness:
  "heuristics (demo_request ''POST'')
     (roll_window 1500 (load_bucket 1500 (demo_storage (storage_key (demo_request ''POST''))))) = 5
   \<and> v_hits (fst (RateLimiter_fetch 1500 (demo_request ''POST'') demo_storage)) = 126"
  using heuristic_delta_sum [of 1500 "demo_request ''POST''" demo_storage]
  by (simp add: demo_fetch_post)
     (simp add: heuristics_def Let_def bucket_fields load_bucket_def storage_key_def
        startsWith_def demo_request_def demo_storage_def)

section \<open>Properties of the case ingestor\<close>

subsection \<open>The metrics in closed form\<close>

lemma one_plus_exp_neq0: "1 + exp (x::real) \<noteq> 0"
  using exp_gt_zero [of x] by linarith

lemma foldl_score_acc:
  "foldl (\<lambda>s r. s + r_score r) a rows = a + sum_list (map r_score rows)"
  by (induction rows arbitrary: a) simp_all

lemma foldl_score: "foldl (\<lambda>s r. s + r_score r) 0 rows = sum_list (map r_score rows)"
  by (simp add: foldl_score_acc)

lemma jsdiv_Some: "y \<noteq> 0 \<Longrightarrow> jsdiv x y = Some (x / y)"
  by (simp add: jsdiv_def)

lemma metrics_of_rows_eq:
  "metrics_of_rows cap rows =
     Some \<lparr>attack_rps = real (length rows) / 60,
           bandwidth_mbps = real (length rows) / 60 * 2 * 8 / 1024,
           capacity_rps = cap,
           af = (if cap > 0 then real (length rows) / 60 / cap else 0),
           df = (real (count_action ''challenge'' rows) * 0.6
                 + real (count_action ''tarpit'' rows) * 0.9
                 + real (count_action ''block'' rows) * 1.0) / 60,
           bof = (if cap > 0 \<and> rows \<noteq> [] then
                    (real (count_action ''challenge'' rows) * 0.6
                     + real (count_action ''tarpit'' rows) * 0.9
                     + real (count_action ''block'' rows) * 1.0) / 60
                    / (real (length rows) / 60 / cap)
                  else 1),
           ef = Math_round (real (length rows) + avg_score rows * 3),
           mercy = 1 / (1 + exp (avg_score rows - 6)),
           justice = max 0 (min 1
              ((if rows = [] then 0
                else real (count_action ''challenge'' rows + count_action ''tarpit'' rows
                           + count_action ''block'' rows) / real (length rows))
               + avg_score rows / 12))\<rparr>"
proof (cases "rows = []")
  case True
  then show ?thesis
    by (simp add: metrics_of_rows_def jsdiv_Some one_plus_exp_neq0 avg_score_def count_action_def)
next
  case False
  then have n: "real (length rows) \<noteq> 0" "length rows \<noteq> 0" "0 < real (length rows)"
    by simp_all
  show ?thesis
  proof (cases "cap > 0")
    case True
    then have "cap \<noteq> 0" and "real (length rows) / 60 / cap > 0"
      and "real (length rows) / (60 * cap) > 0"
      using n by simp_all
    then show ?thesis
      using True False n
      by (simp add: metrics_of_rows_def jsdiv_Some one_plus_exp_neq0 avg_score_def
          count_action_def foldl_score Let_def)
  next
    case c: False
    then show ?thesis
      using False n
      by (simp add: metrics_of_rows_def jsdiv_Some one_plus_exp_neq0 avg_score_def
          count_action_def foldl_score Let_def)
  qed
qed

lemma metrics_guards:
  "\<exists>m. metrics_of_rows cap rows = Some m
       \<and> attack_rps m = real (length rows) / 60 \<and> capacity_rps m = cap
       \<and> af m = (if cap > 0 then attack_rps m / cap else 0)
       \<and> bof m = (if af m > 0 then df m / af m else 1)
       \<and> (rows = [] \<longrightarrow> af m = 0 \<and> bof m = 1)"
proof (cases "cap > 0 \<and> rows \<noteq> []")
  case True
  then have "real (length rows) / 60 / cap > 0" by simp
  then show ?thesis
    using True by (simp add: metrics_of_rows_eq)
next
  case False
  then have "\<not> (if cap > 0 then real (length rows) / 60 / cap else 0) > 0" by auto
  then show ?thesis
    using False by (auto simp add: metrics_of_rows_eq)
qed

lemma recomputeMetrics_eq:
  "d1_fault rt \<noteq> Some 3 \<Longrightarrow>
     recomputeMetrics rt db caseId =
       Inr (the (metrics_of_rows capacityRPS (select_window db caseId (now_metrics rt - windowMs))))"
  by (simp add: recomputeMetrics_def Let_def metrics_of_rows_eq)

lemma count_action_all:
  "\<forall>r\<in>set rows. r_action r = a \<Longrightarrow> a \<noteq> a' \<Longrightarrow> count_action a' rows = 0"
  by (simp add: count_action_def)

subsection \<open>The window in terms of table events\<close>

lemma sum_list_insort_key:
  fixes f :: "'a \<Rightarrow> real"
  shows "sum_list (map f (insort_key k x xs)) = f x + sum_list (map f xs)"
  by (induction xs) simp_all

lemma sum_list_sort_key:
  fixes f :: "'a \<Rightarrow> real"
  shows "sum_list (map f (sort_key k xs)) = sum_list (map f xs)"
  by (induction xs) (simp_all add: sum_list_insort_key)

lemma length_select_window:
  "length (select_window db c t) =
     length (filter (\<lambda>r. ev_case_id r = c \<and> t \<le> ev_ts r) (events db))"
  by (simp add: select_window_def)

lemma count_action_select_window:
  "count_action a (select_window db c t) =
     length (filter (\<lambda>r. ev_case_id r = c \<and> t \<le> ev_ts r \<and> ev_action r = a) (events db))"
  by (simp add: count_action_def select_window_def filter_sort filter_map comp_def)

lemma sum_score_select_window:
  "sum_list (map r_score (select_window db c t)) =
     sum_list (map ev_score (filter (\<lambda>r. ev_case_id r = c \<and> t \<le> ev_ts r) (events db)))"
  by (simp add: select_window_def sum_list_sort_key comp_def)

subsection \<open>upsertCase\<close>

lemma find_key_Some:
  "find (\<lambda>c. c_key c = k) cs = Some c \<Longrightarrow> c \<in> set cs \<and> c_key c = k"
  by (induction cs) (auto split: if_splits)

lemma find_key_None: "(find (\<lambda>c. c_key c = k) cs = None) = (\<forall>c\<in>set cs. c_key c \<noteq> k)"
  by (induction cs) auto

lemma distinct_map_eq:
  "distinct (map f xs) \<Longrightarrow> x \<in> set xs \<Longrightarrow> y \<in> set xs \<Longrightarrow> f x = f y \<Longrightarrow> x = y"
  by (auto simp: distinct_map inj_on_def)

lemma new_case_sel:
  "c_id (new_case i k e) = i" "c_key (new_case i k e) = k" "c_status (new_case i k e) = ''OPEN''"
  "c_first_seen (new_case i k e) = e_ts e" "c_last_seen (new_case i k e) = e_ts e"
  "c_abuse_report (new_case i k e) = None" "c_section504_draft (new_case i k e) = None"
  by (simp_all add: new_case_def)

lemma snapshot_sel:
  "c_id (snapshot t m a s c) = c_id c" "c_key (snapshot t m a s c) = c_key c"
  "c_first_seen (snapshot t m a s c) = c_first_seen c"
  "c_last_seen (snapshot t m a s c) = t" "c_status (snapshot t m a s c) = ''OPEN''"
  "c_abuse_report (snapshot t m a s c) = Some a"
  "c_section504_draft (snapshot t m a s c) = Some s"
  by (simp_all add: snapshot_def)

lemma upsertCase_found:
  assumes wf: "cases_wf db" and c: "c \<in> set (cases db)" "c_key c = case_key e"
    and nf: "d1_fault rt \<noteq> Some 0" "d1_fault rt \<noteq> Some 1"
  shows "upsertCase rt db e =
           (Inr (c_id c),
            db\<lparr>cases := map (\<lambda>x. if c_key x = case_key e then x\<lparr>c_last_seen := e_ts e\<rparr> else x)
                          (cases db)\<rparr>)"
proof -
  have dk: "distinct (map c_key (cases db))" and di: "distinct (map c_id (cases db))"
    using wf by (simp_all add: cases_wf_def)
  have "find (\<lambda>x. c_key x = case_key e) (cases db) \<noteq> None"
    using c by (auto simp: find_key_None)
  then obtain c' where f: "find (\<lambda>x. c_key x = case_key e) (cases db) = Some c'"
    by blast
  then have c': "c' \<in> set (cases db)" "c_key c' = case_key e"
    using find_key_Some by blast+
  have eq: "c' = c"
    by (rule distinct_map_eq [OF dk c'(1) c(1)]) (simp add: c c')
  have ne: "c_id c \<noteq> ''''"
    using wf c by (auto simp: cases_wf_def list_all_iff)
  have same: "(c_id x = c_id c) = (c_key x = case_key e)" if x: "x \<in> set (cases db)" for x
  proof
    assume "c_id x = c_id c"
    then have "x = c" by (rule distinct_map_eq [OF di x c(1)])
    then show "c_key x = case_key e" using c by simp
  next
    assume "c_key x = case_key e"
    then have "c_key x = c_key c" using c by simp
    then have "x = c" by (rule distinct_map_eq [OF dk x c(1)])
    then show "c_id x = c_id c" by simp
  qed
  have m: "map (\<lambda>x. if c_id x = c_id c then x\<lparr>c_last_seen := e_ts e\<rparr> else x) (cases db)
      = map (\<lambda>x. if c_key x = case_key e then x\<lparr>c_last_seen := e_ts e\<rparr> else x) (cases db)"
    by (rule map_cong) (simp_all add: same)
  have sel: "select_case_id db (case_key e) = Some (c_id c)"
    by (simp add: select_case_id_def f eq)
  have "upsertCase rt db e = (Inr (c_id c), update_last_seen (c_id c) (e_ts e) db)"
    using nf ne by (simp add: upsertCase_def sel Let_def)
  then show ?thesis
    by (simp add: update_last_seen_def m)
qed

lemma upsertCase_new:
  assumes nokey: "\<forall>c\<in>set (cases db). c_key c \<noteq> case_key e"
    and fresh: "\<forall>c\<in>set (cases db). c_id c \<noteq> randomUUID rt"
    and nf: "d1_fault rt \<noteq> Some 0" "d1_fault rt \<noteq> Some 1"
  shows "upsertCase rt db e =
           (Inr (randomUUID rt),
            db\<lparr>cases := cases db @ [new_case (randomUUID rt) (case_key e) e]\<rparr>)"
proof -
  have f: "find (\<lambda>x. c_key x = case_key e) (cases db) = None"
    using nokey by (simp add: find_key_None)
  have "\<not> list_ex (\<lambda>c. c_id c = randomUUID rt \<or> c_key c = case_key e) (cases db)"
    using nokey fresh by (auto simp: list_ex_iff)
  then show ?thesis
    using f nf
    by (simp add: upsertCase_def select_case_id_def insert_case_def new_case_def Let_def)
qed


lemma key_filter_one:
  assumes "distinct (map c_key cs)" and "c \<in> set cs"
  shows "length (filter (\<lambda>x. c_key x = c_key c) cs) = 1"
  using assms
proof (induction cs)
  case Nil
  then show ?case by simp
next
  case (Cons a cs)
  show ?case
  proof (cases "a = c")
    case True
    then have "\<forall>x\<in>set cs. c_key x \<noteq> c_key c"
      using Cons.prems by (auto simp: image_iff)
    then have "filter (\<lambda>x. c_key x = c_key c) cs = []"
      by (simp add: filter_empty_conv)
    then show ?thesis using True by simp
  next
    case False
    then have "c \<in> set cs" using Cons.prems by simp
    moreover from this have "c_key a \<noteq> c_key c" using Cons.prems by auto
    ultimately show ?thesis using Cons by simp
  qed
qed

lemma key_filter_bump:
  "filter (\<lambda>x. c_key x = k) (map (\<lambda>x. if c_key x = k then x\<lparr>c_last_seen := t\<rparr> else x) cs)
     = map (\<lambda>x. x\<lparr>c_last_seen := t\<rparr>) (filter (\<lambda>x. c_key x = k) cs)"
  by (induction cs) simp_all

lemma cases_wf_upsertCase:
  assumes "cases_wf db" and "randomUUID rt \<noteq> ''''"
  shows "cases_wf (snd (upsertCase rt db e))"
proof -
  have u: "cases_wf (update_last_seen i t db)" for i t
  proof -
    have "map c_id (cases (update_last_seen i t db)) = map c_id (cases db)"
         "map c_key (cases (update_last_seen i t db)) = map c_key (cases db)"
      by (simp_all add: update_last_seen_def comp_def if_distrib cong: if_cong)
    moreover have "list_all (\<lambda>c. c_id c \<noteq> '''') (cases (update_last_seen i t db))"
      using assms(1) by (auto simp: update_last_seen_def cases_wf_def list_all_iff)
    ultimately show ?thesis using assms(1) by (simp add: cases_wf_def)
  qed
  have n: "cases_wf db'" if "insert_case (new_case (randomUUID rt) k e) db = Inr db'" for k db'
    using that assms
    by (fastforce simp: insert_case_def new_case_def cases_wf_def list_ex_iff split: if_splits)
  show ?thesis
    using assms(1) u n
    by (auto simp: upsertCase_def Let_def split: sum.splits option.splits)
qed


subsection \<open>The handler\<close>

lemma insert_event_cases: "insert_event rt caseId e db = Inr db' \<Longrightarrow> cases db' = cases db"
  by (auto simp: insert_event_def Let_def split: if_splits)

lemma update_case_events:
  "events (update_case caseId now m a s db) = events db \<and>
   events_seq (update_case caseId now m a s db) = events_seq db"
  by (simp add: update_case_def)

lemma process_message_ok:
  assumes "upsertCase rt (DB w) (body msg) = (Inr caseId, db1)"
    and "insert_event rt caseId (body msg) db1 = Inr db2"
    and "recomputeMetrics rt db2 caseId = Inr m"
    and "d1_fault rt \<noteq> Some 4"
  shows "process_message bs rt msg w =
           (None,
            \<lparr>DB = (if thresholds_pass m
                   then update_case caseId (now_update rt) m
                          (buildAbuseReport bs (e_zone (body msg)) m)
                          (buildSection504Draft bs (now_draft rt) m) db2
                   else db2),
             acked = acked w @ [msg_id msg]\<rparr>)"
  using assms by (simp add: process_message_def Let_def)

lemma process_message_acked:
  "process_message bs rt msg w = (res, w') \<Longrightarrow>
     acked w' = (if res = None then acked w @ [msg_id msg] else acked w)"
proof -
  obtain r1 db1 where u: "upsertCase rt (DB w) (body msg) = (r1, db1)"
    by (cases "upsertCase rt (DB w) (body msg)")
  assume pm: "process_message bs rt msg w = (res, w')"
  show ?thesis
  proof (cases r1)
    case (Inl err)
    with u pm show ?thesis by (auto simp: process_message_def)
  next
    case (Inr caseId)
    note cid = this
    show ?thesis
    proof (cases "insert_event rt caseId (body msg) db1")
      case (Inl err)
      with u cid pm show ?thesis by (auto simp: process_message_def)
    next
      case (Inr db2)
      note ins = this
      show ?thesis
      proof (cases "recomputeMetrics rt db2 caseId")
        case (Inl err)
        with u cid ins pm show ?thesis by (auto simp: process_message_def)
      next
        case (Inr m)
        with u cid ins pm show ?thesis
          by (cases "thresholds_pass m"; cases "d1_fault rt = Some 4")
             (auto simp: process_message_def Let_def)
      qed
    qed
  qed
qed


lemma process_message_event_fault:
  assumes "upsertCase rt (DB w) (body msg) = (Inr caseId, db1)" and "d1_fault rt = Some 2"
  shows "process_message bs rt msg w = (Some D1Error, w\<lparr>DB := db1\<rparr>)"
  using assms by (simp add: process_message_def insert_event_def)

lemma cases_wf_process_message:
  assumes wf: "cases_wf (DB w)" and id: "randomUUID rt \<noteq> ''''"
  shows "cases_wf (DB (snd (process_message bs rt msg w)))"
proof -
  obtain r1 db1 where u: "upsertCase rt (DB w) (body msg) = (r1, db1)"
    by (cases "upsertCase rt (DB w) (body msg)")
  have wf1: "cases_wf db1"
    using cases_wf_upsertCase [OF wf id, of "body msg"] u by simp
  have upd: "cases_wf (update_case c t m a s db)" if "cases_wf db" for c t m a s db
  proof -
    have "map c_id (cases (update_case c t m a s db)) = map c_id (cases db)"
         "map c_key (cases (update_case c t m a s db)) = map c_key (cases db)"
      by (simp_all add: update_case_def comp_def if_distrib snapshot_sel cong: if_cong)
    moreover have "list_all (\<lambda>x. c_id x \<noteq> '''') (cases (update_case c t m a s db))"
      using that by (auto simp: update_case_def cases_wf_def list_all_iff snapshot_sel)
    ultimately show ?thesis using that by (simp add: cases_wf_def)
  qed
  show ?thesis
  proof (cases r1)
    case (Inl err)
    with u wf1 show ?thesis by (simp add: process_message_def)
  next
    case (Inr caseId)
    note cid = this
    show ?thesis
    proof (cases "insert_event rt caseId (body msg) db1")
      case (Inl err)
      with u cid wf1 show ?thesis by (simp add: process_message_def)
    next
      case (Inr db2)
      note ins = this
      have wf2: "cases_wf db2"
        using wf1 insert_event_cases [OF ins] by (simp add: cases_wf_def)
      show ?thesis
      proof (cases "recomputeMetrics rt db2 caseId")
        case (Inl err)
        with u cid ins wf2 show ?thesis by (simp add: process_message_def)
      next
        case (Inr m)
        with u cid ins wf2 upd [OF wf2] show ?thesis
          by (cases "thresholds_pass m"; cases "d1_fault rt = Some 4")
             (simp_all add: process_message_def Let_def)
      qed
    qed
  qed
qed

lemma cases_wf_queue:
  "cases_wf (DB w) \<Longrightarrow> \<forall>p\<in>set batch. randomUUID (fst p) \<noteq> '''' \<Longrightarrow>
     cases_wf (DB (snd (queue bs batch w)))"
proof (induction batch arbitrary: w)
  case Nil
  then show ?case by simp
next
  case (Cons p batch)
  obtain rt msg where p: "p = (rt, msg)" by (cases p)
  obtain r1 w1 where pm: "process_message bs rt msg w = (r1, w1)"
    by (cases "process_message bs rt msg w")
  have wf1: "cases_wf (DB w1)"
    using cases_wf_process_message [of w rt bs msg] Cons.prems pm p by simp
  show ?case
  proof (cases r1)
    case None
    then show ?thesis
      using Cons.IH [OF wf1] Cons.prems(2) pm p by simp
  next
    case (Some err)
    then show ?thesis using wf1 pm p by simp
  qed
qed

subsection \<open>The handler on concrete messages\<close>

lemma upsertCase_empty:
  "d1_fault rt = None \<Longrightarrow> cases db = [] \<Longrightarrow>
     upsertCase rt db e =
       (Inr (randomUUID rt), db\<lparr>cases := [new_case (randomUUID rt) (case_key e) e]\<rparr>)"
  using upsertCase_new [of db e rt] by simp

lemma demo_upsertCase:
  "upsertCase (demo_runtime None) (DB empty_world) (demo_event a) = (Inr demo_uuid, demo_db1 a)"
  by (simp add: upsertCase_empty empty_world_def demo_runtime_def demo_db1_def)

lemma demo_insert_event:
  "insert_event (demo_runtime None) demo_uuid (demo_event a) (demo_db1 a) = Inr (demo_db2 a)"
  by (simp add: insert_event_def demo_db1_def demo_db2_def new_case_sel demo_runtime_def
      demo_event_def)

lemma demo_select_window:
  "select_window (demo_db2 a) demo_uuid (now_metrics (demo_runtime None) - windowMs) = [demo_row a]"
  by (simp add: select_window_def demo_db2_def demo_runtime_def windowMs_def demo_row_def)

lemma demo_recomputeMetrics:
  "recomputeMetrics (demo_runtime None) (demo_db2 a) demo_uuid =
     Inr (the (metrics_of_rows capacityRPS [demo_row a]))"
proof -
  have "d1_fault (demo_runtime None) \<noteq> Some 3"
    by (simp add: demo_runtime_def)
  from recomputeMetrics_eq [OF this, of "demo_db2 a" demo_uuid] show ?thesis
    by (simp only: demo_select_window)
qed

lemma demo_no_fault4: "d1_fault (demo_runtime None) \<noteq> Some 4"
  by (simp add: demo_runtime_def)

lemma demo_pass_allow: "thresholds_pass (the (metrics_of_rows capacityRPS [demo_row ''allow'']))"
  by (simp add: metrics_of_rows_eq thresholds_pass_def count_action_def demo_row_def
      capacityRPS_def)

lemma demo_pass_block: "\<not> thresholds_pass (the (metrics_of_rows capacityRPS [demo_row ''block'']))"
  by (simp add: metrics_of_rows_eq thresholds_pass_def count_action_def demo_row_def
      capacityRPS_def avg_score_def Math_round_def)

lemma demo_process_allow:
  "process_message demo_builders (demo_runtime None) (demo_message i ''allow'') empty_world =
     (None, demo_world1\<lparr>acked := [i]\<rparr>)"
proof -
  have u: "upsertCase (demo_runtime None) (DB empty_world) (body (demo_message i ''allow''))
             = (Inr demo_uuid, demo_db1 ''allow'')"
    and n: "insert_event (demo_runtime None) demo_uuid (body (demo_message i ''allow''))
             (demo_db1 ''allow'') = Inr (demo_db2 ''allow'')"
    by (simp_all add: demo_message_def demo_upsertCase demo_insert_event)
  show ?thesis
    unfolding process_message_ok [OF u n demo_recomputeMetrics demo_no_fault4]
    by (simp add: demo_pass_allow demo_world1_def demo_builders_def demo_message_def
        demo_event_def demo_runtime_def empty_world_def)
qed

lemma demo_process_block:
  "process_message demo_builders (demo_runtime None) (demo_message i ''block'') empty_world =
     (None, \<lparr>DB = demo_db2 ''block'', acked = [i]\<rparr>)"
proof -
  have u: "upsertCase (demo_runtime None) (DB empty_world) (body (demo_message i ''block''))
             = (Inr demo_uuid, demo_db1 ''block'')"
    and n: "insert_event (demo_runtime None) demo_uuid (body (demo_message i ''block''))
             (demo_db1 ''block'') = Inr (demo_db2 ''block'')"
    by (simp_all add: demo_message_def demo_upsertCase demo_insert_event)
  show ?thesis
    unfolding process_message_ok [OF u n demo_recomputeMetrics demo_no_fault4]
    by (simp add: demo_pass_block demo_message_def empty_world_def)
qed

lemma demo_cases_world1:
  "cases (DB demo_world1) =
     [snapshot 1700000000050 (the (metrics_of_rows capacityRPS [demo_row ''allow'']))
        ''ABUSE REPORT example.com'' ''SECTION 504 INFORMATION''
        (new_case demo_uuid (case_key (demo_event ''allow'')) (demo_event ''allow''))]"
  by (simp add: demo_world1_def update_case_def demo_db2_def new_case_sel)

lemma demo_upsertCase_again:
  "fst (upsertCase (demo_runtime (Some 2)) (DB demo_world1) (demo_event ''allow'')) = Inr demo_uuid"
  by (simp add: upsertCase_def select_case_id_def demo_cases_world1 snapshot_sel new_case_sel
      Let_def demo_runtime_def)
     (simp add: demo_uuid_def)


section \<open>The claims about the case ingestor\<close>

text \<open>
  C5. After an event is ingested (case upserted, event inserted, metrics recomputed, no
  statement throwing), the handler materializes if and only if EF \<ge> 50 or AF \<ge> 1 or
  BoF < 1. When it does, one UPDATE statement sets, on the case of that id, \<open>last_seen\<close>,
  \<open>status = 'OPEN'\<close>, every metric column (\<open>attack_rps\<close>, \<open>est_bandwidth_mbps\<close>,
  \<open>system_capacity_rps\<close>, \<open>AF\<close>, \<open>DF\<close>, \<open>BoF\<close>, \<open>evidence_count\<close>, \<open>mercy\<close>,
  \<open>justice\<close>) and the two report columns; when it does not, table \<open>cases\<close> is left as
  \<open>upsertCase\<close> left it. The events are not touched either way.
\<close>

theorem materialization_trigger:
  assumes "upsertCase rt (DB w) (body msg) = (Inr caseId, db1)"
    and "insert_event rt caseId (body msg) db1 = Inr db2"
    and "recomputeMetrics rt db2 caseId = Inr m"
    and "d1_fault rt \<noteq> Some 4"
  shows "\<exists>w'. process_message bs rt msg w = (None, w')
           \<and> events (DB w') = events db2 \<and> cases db2 = cases db1
           \<and> cases (DB w') =
               (if ef m \<ge> 50 \<or> af m \<ge> 1 \<or> bof m < 1 then
                  map (\<lambda>c. if c_id c = caseId then
                              c\<lparr>c_last_seen := now_update rt, c_status := ''OPEN'',
                                c_attack_rps := attack_rps m,
                                c_est_bandwidth_mbps := bandwidth_mbps m,
                                c_system_capacity_rps := capacity_rps m,
                                c_AF := af m, c_DF := df m, c_BoF := bof m,
                                c_evidence_count := ef m,
                                c_mercy := mercy m, c_justice := justice m,
                                c_abuse_report := Some (buildAbuseReport bs (e_zone (body msg)) m),
                                c_section504_draft := Some (buildSection504Draft bs (now_draft rt) m)\<rparr>
                            else c) (cases db2)
                else cases db2)"
proof -
  have c: "cases db2 = cases db1"
    by (rule insert_event_cases [OF assms(2)])
  show ?thesis
    unfolding process_message_ok [OF assms, of bs]
    by (simp add: c thresholds_pass_def update_case_def snapshot_def)
qed

theorem materialization_trigger_witness:
  "map c_abuse_report (cases (DB (snd (process_message demo_builders (demo_runtime None)
      (demo_message ''m1'' ''allow'') empty_world)))) = [Some ''ABUSE REPORT example.com'']
   \<and> map c_last_seen (cases (DB (snd (process_message demo_builders (demo_runtime None)
      (demo_message ''m1'' ''allow'') empty_world)))) = [1700000000050]
   \<and> map c_abuse_report (cases (DB (snd (process_message demo_builders (demo_runtime None)
      (demo_message ''m1'' ''block'') empty_world)))) = [None]
   \<and> map c_last_seen (cases (DB (snd (process_message demo_builders (demo_runtime None)
      (demo_message ''m1'' ''block'') empty_world)))) = [1700000000000]"
proof -
  have u: "upsertCase (demo_runtime None) (DB empty_world) (body (demo_message ''m1'' ''block''))
             = (Inr demo_uuid, demo_db1 ''block'')"
    and n: "insert_event (demo_runtime None) demo_uuid (body (demo_message ''m1'' ''block''))
             (demo_db1 ''block'') = Inr (demo_db2 ''block'')"
    by (simp_all add: demo_message_def demo_upsertCase demo_insert_event)
  from materialization_trigger [OF u n demo_recomputeMetrics demo_no_fault4, of demo_builders]
  have "cases (DB (snd (process_message demo_builders (demo_runtime None)
          (demo_message ''m1'' ''block'') empty_world))) = cases (demo_db2 ''block'')"
    using demo_pass_block by (auto simp: thresholds_pass_def)
  then show ?thesis
    by (simp add: demo_process_allow demo_cases_world1 snapshot_sel)
       (simp add: demo_db2_def new_case_sel demo_event_def)
qed

text \<open>
  C6. The divisions of the aggregation are guarded. For every capacity constant and
  every window the metrics are computed with no division by zero; AF is
  \<open>attack_rps / capacity\<close> when the capacity is greater than 0 and 0 otherwise; BoF is
  \<open>DF / AF\<close> when AF > 0 and 1 otherwise; for the empty window AF = 0 and BoF = 1.
  \<open>recomputeMetrics\<close>, whose capacity constant is 500, never ends in a division by zero.
\<close>

theorem division_guards:
  "\<exists>m. metrics_of_rows cap rows = Some m
       \<and> attack_rps m = real (length rows) / 60 \<and> capacity_rps m = cap
       \<and> af m = (if cap > 0 then attack_rps m / cap else 0)
       \<and> bof m = (if af m > 0 then df m / af m else 1)
       \<and> (rows = [] \<longrightarrow> af m = 0 \<and> bof m = 1)
       \<and> recomputeMetrics rt db caseId \<noteq> Inl NonFinite
       \<and> (d1_fault rt \<noteq> Some 3 \<longrightarrow>
            (\<exists>m'. recomputeMetrics rt db caseId = Inr m' \<and> capacity_rps m' = 500
                 \<and> af m' = attack_rps m' / 500
                 \<and> bof m' = (if af m' > 0 then df m' / af m' else 1)))"
proof -
  from metrics_guards [of capacityRPS "select_window db caseId (now_metrics rt - windowMs)"]
  obtain m' where m':
    "metrics_of_rows capacityRPS (select_window db caseId (now_metrics rt - windowMs)) = Some m'"
    "capacity_rps m' = capacityRPS"
    "af m' = (if capacityRPS > 0 then attack_rps m' / capacityRPS else 0)"
    "bof m' = (if af m' > 0 then df m' / af m' else 1)"
    by blast
  have a: "recomputeMetrics rt db caseId \<noteq> Inl NonFinite"
    using m'(1) by (simp add: recomputeMetrics_def Let_def)
  have b: "d1_fault rt \<noteq> Some 3 \<longrightarrow>
            (\<exists>m'. recomputeMetrics rt db caseId = Inr m' \<and> capacity_rps m' = 500
                 \<and> af m' = attack_rps m' / 500
                 \<and> bof m' = (if af m' > 0 then df m' / af m' else 1))"
    using m' by (auto simp: recomputeMetrics_def Let_def capacityRPS_def)
  show ?thesis using metrics_guards [of cap rows] a b by blast
qed

theorem division_guards_witness:
  "(\<exists>m. metrics_of_rows 0 [demo_row ''allow''] = Some m \<and> af m = 0 \<and> bof m = 1)
   \<and> (\<exists>m. recomputeMetrics (demo_runtime None) (DB empty_world) demo_uuid = Inr m
           \<and> af m = 0 \<and> bof m = 1)"
proof -
  have w: "select_window (DB empty_world) demo_uuid (now_metrics (demo_runtime None) - windowMs) = []"
    by (simp add: select_window_def empty_world_def)
  have f: "d1_fault (demo_runtime None) \<noteq> Some 3"
    by (simp add: demo_runtime_def)
  have r: "recomputeMetrics (demo_runtime None) (DB empty_world) demo_uuid
             = Inr (the (metrics_of_rows capacityRPS []))"
    using recomputeMetrics_eq [OF f, of "DB empty_world" demo_uuid] by (simp only: w)
  from division_guards [of capacityRPS "[]" "demo_runtime None" "DB empty_world" demo_uuid]
  have "\<exists>m. metrics_of_rows capacityRPS [] = Some m \<and> af m = 0 \<and> bof m = 1"
    by auto
  then have a: "\<exists>m. recomputeMetrics (demo_runtime None) (DB empty_world) demo_uuid = Inr m
           \<and> af m = 0 \<and> bof m = 1"
    unfolding r by auto
  from division_guards [of 0 "[demo_row ''allow'']" "demo_runtime None" "DB empty_world" demo_uuid]
  have "\<exists>m. metrics_of_rows 0 [demo_row ''allow''] = Some m \<and> af m = 0 \<and> bof m = 1"
    by auto
  with a show ?thesis by blast
qed

text \<open>
  C7. For a window of exactly 50 events with mean score 10, of which 30 are blocked and
  none challenged or tarpitted, \<open>recomputeMetrics\<close> gives DF = 30/60 = 0.5,
  attack_rps = 50/60, AF = (50/60)/500 = 1/600, BoF = 300 and EF = 80, and the
  materialization test passes.
\<close>

theorem worked_example:
  assumes "d1_fault rt \<noteq> Some 3"
    and "select_window db caseId (now_metrics rt - windowMs) = rows"
    and "length rows = 50" and "avg_score rows = 10"
    and "count_action ''block'' rows = 30"
    and "count_action ''challenge'' rows = 0" and "count_action ''tarpit'' rows = 0"
  shows "\<exists>m. recomputeMetrics rt db caseId = Inr m
           \<and> df m = 30 / 60 \<and> df m = 0.5 \<and> attack_rps m = 50 / 60
           \<and> af m = 50 / 60 / 500 \<and> af m = 1 / 600 \<and> bof m = 300
           \<and> ef m = 80 \<and> thresholds_pass m"
proof -
  have ne: "rows \<noteq> []" using assms(3) by auto
  have "Math_round (real (length rows) + avg_score rows * 3) = 80"
    using assms by (simp add: Math_round_def)
  then show ?thesis
    using assms ne
    by (simp add: recomputeMetrics_eq metrics_of_rows_eq capacityRPS_def thresholds_pass_def)
qed

theorem worked_example_witness:
  "\<exists>m. recomputeMetrics (demo_runtime None) demo_db50 demo_uuid = Inr m
        \<and> df m = 0.5 \<and> attack_rps m = 50 / 60 \<and> af m = 1 / 600 \<and> bof m = 300
        \<and> ef m = 80 \<and> thresholds_pass m"
proof -
  let ?t = "now_metrics (demo_runtime None) - windowMs"
  let ?rows = "select_window demo_db50 demo_uuid ?t"
  have ev: "events demo_db50 = map demo_event50 [1..<51]"
    by (simp add: demo_db50_def)
  have in_window:
    "filter (\<lambda>r. ev_case_id r = demo_uuid \<and> ?t \<le> ev_ts r) (map demo_event50 xs)
       = map demo_event50 xs" for xs
    by (induction xs) (simp_all add: demo_event50_def demo_runtime_def windowMs_def)
  have counts:
    "length (filter (\<lambda>r. ev_case_id r = demo_uuid \<and> ?t \<le> ev_ts r \<and> ev_action r = a)
               (map demo_event50 xs))
       = length (filter (\<lambda>i. (if i \<le> 30 then ''block'' else ''allow'') = a) xs)" for a xs
    by (induction xs) (simp_all add: demo_event50_def demo_runtime_def windowMs_def)
  have scores: "sum_list (map ev_score (map demo_event50 xs)) = 10 * real (length xs)" for xs
    by (induction xs) (simp_all add: demo_event50_def)
  have f: "d1_fault (demo_runtime None) \<noteq> Some 3"
    by (simp add: demo_runtime_def)
  have n: "length ?rows = 50"
    unfolding length_select_window ev in_window by simp
  then have ne: "?rows \<noteq> []" by auto
  have "sum_list (map r_score ?rows) = 10 * real (length [1..<51::nat])"
    unfolding sum_score_select_window ev in_window by (rule scores)
  then have avg: "avg_score ?rows = 10"
    using ne n by (simp add: avg_score_def)
  have b30: "length (filter (\<lambda>i. (if i \<le> 30 then ''block'' else ''allow'') = ''block'')
                      [1..<51::nat]) = 30"
    by code_simp
  have c0: "length (filter (\<lambda>i. (if i \<le> 30 then ''block'' else ''allow'') = ''challenge'')
                      [1..<51::nat]) = 0"
    by code_simp
  have t0: "length (filter (\<lambda>i. (if i \<le> 30 then ''block'' else ''allow'') = ''tarpit'')
                      [1..<51::nat]) = 0"
    by code_simp
  have b: "count_action ''block'' ?rows = 30"
    unfolding count_action_select_window ev counts by (rule b30)
  have c: "count_action ''challenge'' ?rows = 0"
    unfolding count_action_select_window ev counts by (rule c0)
  have t: "count_action ''tarpit'' ?rows = 0"
    unfolding count_action_select_window ev counts by (rule t0)
  from worked_example [OF f refl n avg b c t] show ?thesis
    by blast
qed

text \<open>
  C8. \<open>upsertCase\<close> on a key that the table already holds creates no second row for
  that key: it returns the id of the existing row and changes nothing but the
  \<open>last_seen\<close> of that row, which becomes the event's \<open>ts\<close>. On a key the table does not
  hold it appends one row, with \<open>status = 'OPEN'\<close> and \<open>first_seen = last_seen = ts\<close>,
  under the fresh id it returns. The table satisfies the constraints of schema.sql and
  neither statement of \<open>upsertCase\<close> throws.
\<close>

theorem upsertCase_no_duplicate:
  assumes "cases_wf db" and "d1_fault rt \<noteq> Some 0" and "d1_fault rt \<noteq> Some 1"
  shows "(\<forall>c\<in>set (cases db). c_key c = case_key e \<longrightarrow>
            (\<exists>db'. upsertCase rt db e = (Inr (c_id c), db')
               \<and> cases db' =
                   map (\<lambda>x. if x = c then x\<lparr>c_last_seen := e_ts e\<rparr> else x) (cases db)
               \<and> events db' = events db \<and> events_seq db' = events_seq db
               \<and> length (cases db') = length (cases db)
               \<and> length (filter (\<lambda>x. c_key x = case_key e) (cases db')) = 1))
       \<and> ((\<forall>c\<in>set (cases db). c_key c \<noteq> case_key e \<and> c_id c \<noteq> randomUUID rt) \<longrightarrow>
            (\<exists>row. upsertCase rt db e = (Inr (randomUUID rt), db\<lparr>cases := cases db @ [row]\<rparr>)
               \<and> c_id row = randomUUID rt \<and> c_key row = case_key e
               \<and> c_status row = ''OPEN''
               \<and> c_first_seen row = e_ts e \<and> c_last_seen row = e_ts e))"
proof (intro conjI ballI impI)
  fix c
  assume c: "c \<in> set (cases db)" "c_key c = case_key e"
  let ?cs = "map (\<lambda>x. if c_key x = case_key e then x\<lparr>c_last_seen := e_ts e\<rparr> else x) (cases db)"
  have dk: "distinct (map c_key (cases db))"
    using assms(1) by (simp add: cases_wf_def)
  have u: "upsertCase rt db e = (Inr (c_id c), db\<lparr>cases := ?cs\<rparr>)"
    by (rule upsertCase_found [OF assms(1) c assms(2,3)])
  have same: "(x = c) = (c_key x = case_key e)" if "x \<in> set (cases db)" for x
    using distinct_map_eq [OF dk that c(1)] c(2) by auto
  have m: "?cs = map (\<lambda>x. if x = c then x\<lparr>c_last_seen := e_ts e\<rparr> else x) (cases db)"
    by (rule map_cong) (simp_all add: same)
  have one: "length (filter (\<lambda>x. c_key x = case_key e) ?cs) = 1"
    using key_filter_one [OF dk c(1)] by (simp add: key_filter_bump c(2))
  show "\<exists>db'. upsertCase rt db e = (Inr (c_id c), db')
               \<and> cases db' =
                   map (\<lambda>x. if x = c then x\<lparr>c_last_seen := e_ts e\<rparr> else x) (cases db)
               \<and> events db' = events db \<and> events_seq db' = events_seq db
               \<and> length (cases db') = length (cases db)
               \<and> length (filter (\<lambda>x. c_key x = case_key e) (cases db')) = 1"
    unfolding u using m one by simp
next
  assume n: "\<forall>c\<in>set (cases db). c_key c \<noteq> case_key e \<and> c_id c \<noteq> randomUUID rt"
  have "upsertCase rt db e =
           (Inr (randomUUID rt),
            db\<lparr>cases := cases db @ [new_case (randomUUID rt) (case_key e) e]\<rparr>)"
    using n by (intro upsertCase_new assms(2,3)) simp_all
  then show "\<exists>row. upsertCase rt db e = (Inr (randomUUID rt), db\<lparr>cases := cases db @ [row]\<rparr>)
               \<and> c_id row = randomUUID rt \<and> c_key row = case_key e
               \<and> c_status row = ''OPEN''
               \<and> c_first_seen row = e_ts e \<and> c_last_seen row = e_ts e"
    by (intro exI [of _ "new_case (randomUUID rt) (case_key e) e"]) (simp add: new_case_def)
qed

theorem upsertCase_no_duplicate_witness:
  "cases_wf (demo_db1 ''allow'')
   \<and> fst (upsertCase (demo_runtime None) (demo_db1 ''allow'')
        ((demo_event ''allow'')\<lparr>e_ts := 1700000000999\<rparr>)) = Inr demo_uuid
   \<and> map c_last_seen (cases (snd (upsertCase (demo_runtime None) (demo_db1 ''allow'')
        ((demo_event ''allow'')\<lparr>e_ts := 1700000000999\<rparr>)))) = [1700000000999]
   \<and> map c_first_seen (cases (snd (upsertCase (demo_runtime None) (demo_db1 ''allow'')
        ((demo_event ''allow'')\<lparr>e_ts := 1700000000999\<rparr>)))) = [1700000000000]
   \<and> upsertCase (demo_runtime None) (DB empty_world) (demo_event ''allow'')
       = (Inr demo_uuid, demo_db1 ''allow'')"
proof -
  let ?e = "(demo_event ''allow'')\<lparr>e_ts := 1700000000999\<rparr>"
  let ?c = "new_case demo_uuid (case_key (demo_event ''allow'')) (demo_event ''allow'')"
  have wf: "cases_wf (demo_db1 ''allow'')"
    by (simp add: cases_wf_def demo_db1_def new_case_sel) (simp add: demo_uuid_def)
  have f: "d1_fault (demo_runtime None) \<noteq> Some 0" "d1_fault (demo_runtime None) \<noteq> Some 1"
    by (simp_all add: demo_runtime_def)
  have k: "case_key ?e = case_key (demo_event ''allow'')"
    by (simp add: case_key_def)
  have c: "?c \<in> set (cases (demo_db1 ''allow''))" "c_key ?c = case_key ?e"
    by (simp_all add: demo_db1_def new_case_sel k)
  from upsertCase_no_duplicate [OF wf f, of ?e] c
  obtain db' where u: "upsertCase (demo_runtime None) (demo_db1 ''allow'') ?e = (Inr (c_id ?c), db')"
    and cs: "cases db' = map (\<lambda>x. if x = ?c then x\<lparr>c_last_seen := e_ts ?e\<rparr> else x)
               (cases (demo_db1 ''allow''))"
    by blast
  have "cases db' = [?c\<lparr>c_last_seen := 1700000000999\<rparr>]"
    unfolding cs by (simp add: demo_db1_def)
  then show ?thesis
    using wf u by (simp add: new_case_sel demo_upsertCase) (simp add: new_case_def demo_event_def)
qed

text \<open>
  C9, as amended. The handler acknowledges each message on its own, as the last
  statement of the loop body, once that message's upsert, event insert, recompute and,
  when triggered, snapshot update have all succeeded. When a statement throws for a
  message, the handler ends there: the messages before it are acknowledged, that
  message and those after it are not. When nothing throws, all messages are
  acknowledged, in order.
\<close>

theorem queue_acks_processed_prefix:
  "queue bs batch w = (res, w') \<Longrightarrow>
     \<exists>k wk. k \<le> length batch \<and> queue bs (take k batch) w = (None, wk) \<and>
        acked w' = acked w @ map (\<lambda>p. msg_id (snd p)) (take k batch) \<and>
        (case res of
           None \<Rightarrow> k = length batch \<and> w' = wk
         | Some err \<Rightarrow> k < length batch \<and>
             process_message bs (fst (batch ! k)) (snd (batch ! k)) wk = (Some err, w'))"
proof (induction batch arbitrary: w)
  case Nil
  then show ?case by auto
next
  case (Cons p batch)
  obtain rt msg where p: "p = (rt, msg)" by (cases p)
  obtain r1 w1 where pm: "process_message bs rt msg w = (r1, w1)" by (cases "process_message bs rt msg w")
  show ?case
  proof (cases r1)
    case (Some err)
    with Cons.prems pm p have "res = Some err" "w' = w1" by auto
    moreover have "acked w1 = acked w"
      using process_message_acked [OF pm] Some by simp
    ultimately show ?thesis
      using pm Some p by (intro exI [of _ 0] exI [of _ w]) simp
  next
    case None
    with Cons.prems pm p have q: "queue bs batch w1 = (res, w')" by auto
    from Cons.IH [OF q] obtain k wk where
      k: "k \<le> length batch" "queue bs (take k batch) w1 = (None, wk)"
         "acked w' = acked w1 @ map (\<lambda>p. msg_id (snd p)) (take k batch)"
         "(case res of
             None \<Rightarrow> k = length batch \<and> w' = wk
           | Some err \<Rightarrow> k < length batch \<and>
               process_message bs (fst (batch ! k)) (snd (batch ! k)) wk = (Some err, w'))"
      by blast
    have a1: "acked w1 = acked w @ [msg_id msg]"
      using process_message_acked [OF pm] None by simp
    show ?thesis
      using k a1 pm None p
      by (intro exI [of _ "Suc k"] exI [of _ wk]) (auto split: option.splits)
  qed
qed

theorem queue_acks_processed_prefix_witness:
  "fst (queue demo_builders [(demo_runtime None, demo_message ''m1'' ''block'')] empty_world) = None
   \<and> acked (snd (queue demo_builders [(demo_runtime None, demo_message ''m1'' ''block'')]
        empty_world)) = [''m1'']"
proof -
  let ?batch = "[(demo_runtime None, demo_message ''m1'' ''block'')]"
  let ?w = "\<lparr>DB = demo_db2 ''block'', acked = [''m1'']\<rparr>"
  have q: "queue demo_builders ?batch empty_world = (None, ?w)"
    by (simp add: demo_process_block)
  from queue_acks_processed_prefix [OF q] obtain k where
    "acked ?w = acked empty_world @ map (\<lambda>p. msg_id (snd p)) (take k ?batch)"
    and "k = length ?batch"
    by auto
  then have "acked ?w = [''m1'']"
    by (simp add: empty_world_def demo_message_def)
  then show ?thesis
    unfolding q by simp
qed

text \<open>
  C9, as stated, fails: in a batch of two messages where the event insert of the second
  throws, the first message is acknowledged although the loop is never completed, and
  the second is not acknowledged.
\<close>

theorem queue_acks_counterexample:
  "fst (queue demo_builders
          [(demo_runtime None, demo_message ''m1'' ''allow''),
           (demo_runtime (Some 2), demo_message ''m2'' ''allow'')] empty_world) = Some D1Error
   \<and> acked (snd (queue demo_builders
          [(demo_runtime None, demo_message ''m1'' ''allow''),
           (demo_runtime (Some 2), demo_message ''m2'' ''allow'')] empty_world)) = [''m1'']"
proof -
  obtain db1 where u: "upsertCase (demo_runtime (Some 2)) (DB demo_world1) (demo_event ''allow'')
      = (Inr demo_uuid, db1)"
    using demo_upsertCase_again
    by (cases "upsertCase (demo_runtime (Some 2)) (DB demo_world1) (demo_event ''allow'')") auto
  have w: "demo_world1\<lparr>acked := [''m1'']\<rparr> = demo_world1"
    by (simp add: demo_world1_def)
  have b: "body (demo_message ''m2'' ''allow'') = demo_event ''allow''"
    by (simp add: demo_message_def)
  have f: "d1_fault (demo_runtime (Some 2)) = Some 2"
    by (simp add: demo_runtime_def)
  have "process_message demo_builders (demo_runtime (Some 2)) (demo_message ''m2'' ''allow'')
          demo_world1 = (Some D1Error, demo_world1\<lparr>DB := db1\<rparr>)"
    by (rule process_message_event_fault [OF _ f]) (simp only: b u)
  then show ?thesis
    by (simp add: demo_process_allow w) (simp add: demo_world1_def)
qed

text \<open>
  C10. When the window of a case after an ingested event is not empty and holds only
  events with action \<open>allow\<close>, then DF = 0 and AF = (n/60)/500 > 0, so BoF = 0 < 1 and
  the materialization test passes: the handler rewrites the snapshot and report columns
  of the case although no request was challenged, tarpitted or blocked.
\<close>

theorem allow_only_window_triggers:
  assumes "upsertCase rt (DB w) (body msg) = (Inr caseId, db1)"
    and "insert_event rt caseId (body msg) db1 = Inr db2"
    and "d1_fault rt \<noteq> Some 3" and "d1_fault rt \<noteq> Some 4"
    and "select_window db2 caseId (now_metrics rt - windowMs) = rows"
    and "rows \<noteq> []" and "\<forall>r\<in>set rows. r_action r = ''allow''"
  shows "\<exists>m. recomputeMetrics rt db2 caseId = Inr m
           \<and> df m = 0 \<and> af m = real (length rows) / 60 / 500 \<and> af m > 0
           \<and> bof m = 0 \<and> bof m < 1 \<and> thresholds_pass m
           \<and> process_message bs rt msg w =
               (None,
                \<lparr>DB = update_case caseId (now_update rt) m
                        (buildAbuseReport bs (e_zone (body msg)) m)
                        (buildSection504Draft bs (now_draft rt) m) db2,
                 acked = acked w @ [msg_id msg]\<rparr>)"
proof -
  let ?m = "the (metrics_of_rows capacityRPS rows)"
  have r: "recomputeMetrics rt db2 caseId = Inr ?m"
    using assms(3,5) by (simp add: recomputeMetrics_eq)
  have c: "count_action ''challenge'' rows = 0" "count_action ''tarpit'' rows = 0"
          "count_action ''block'' rows = 0"
    by (simp_all add: count_action_all [OF assms(7)])
  have d: "df ?m = 0" by (simp add: metrics_of_rows_eq c)
  have a: "af ?m = real (length rows) / 60 / 500"
    by (simp add: metrics_of_rows_eq capacityRPS_def)
  have a0: "af ?m > 0" using assms(6) by (simp add: a)
  have b: "bof ?m = 0" using assms(6) by (simp add: metrics_of_rows_eq capacityRPS_def c)
  have t: "thresholds_pass ?m" by (simp add: thresholds_pass_def b)
  show ?thesis
    using r d a a0 b t process_message_ok [OF assms(1,2) r assms(4), of bs]
    by (intro exI [of _ ?m]) simp
qed

theorem allow_only_window_triggers_witness:
  "(\<exists>m. recomputeMetrics (demo_runtime None) (demo_db2 ''allow'') demo_uuid = Inr m
         \<and> df m = 0 \<and> af m = 1 / 30000 \<and> bof m = 0 \<and> thresholds_pass m)
   \<and> map c_section504_draft (cases (DB (snd (process_message demo_builders (demo_runtime None)
        (demo_message ''m1'' ''allow'') empty_world)))) = [Some ''SECTION 504 INFORMATION'']"
proof -
  have u: "upsertCase (demo_runtime None) (DB empty_world) (body (demo_message ''m1'' ''allow''))
             = (Inr demo_uuid, demo_db1 ''allow'')"
    and n: "insert_event (demo_runtime None) demo_uuid (body (demo_message ''m1'' ''allow''))
             (demo_db1 ''allow'') = Inr (demo_db2 ''allow'')"
    by (simp_all add: demo_message_def demo_upsertCase demo_insert_event)
  have f: "d1_fault (demo_runtime None) \<noteq> Some 3"
    by (simp add: demo_runtime_def)
  have r: "[demo_row ''allow''] \<noteq> []" "\<forall>r\<in>set [demo_row ''allow'']. r_action r = ''allow''"
    by (simp_all add: demo_row_def)
  from allow_only_window_triggers [OF u n f demo_no_fault4 demo_select_window r, of demo_builders]
  have "\<exists>m. recomputeMetrics (demo_runtime None) (demo_db2 ''allow'') demo_uuid = Inr m
         \<and> df m = 0 \<and> af m = 1 / 30000 \<and> bof m = 0 \<and> thresholds_pass m"
    by auto
  then show ?thesis
    by (simp add: demo_process_allow demo_cases_world1 snapshot_sel)
qed


end
